theory Spec2Isabelle
  imports Main "HOL-Library.Word"
begin

unbundle bit_operations_syntax

section \<open>Bytes, errors and the consumed interfaces\<close>

type_synonym byte = "8 word"

text \<open>
  Go's \<^verbatim>\<open>error\<close> values that the hashing code can meet: the sentinel errors of
  \<^verbatim>\<open>io\<close> and \<^verbatim>\<open>bytes\<close>, and an operating-system failure carrying its message.
\<close>

datatype io_error = EOF | errOffset | errWhence | errNegativeOffset | OSError string

text \<open>
  The builtin \<^verbatim>\<open>copy(dst, src)\<close>: the first \<open>min (len dst) (len src)\<close> elements of
  \<open>dst\<close> are overwritten, the rest of \<open>dst\<close> stays. The result is the new \<open>dst\<close>.
\<close>

definition go_copy :: "'a list \<Rightarrow> 'a list \<Rightarrow> 'a list" where
  "go_copy dst src = (let k = min (length dst) (length src) in take k src @ drop k dst)"

text \<open>
  \<^verbatim>\<open>make([]byte, n)\<close>: a zeroed slice. The runtime panics (\<^verbatim>\<open>makeslice: len out of range\<close>)
  on a negative length and on a length above its allocation limit, \<^verbatim>\<open>maxAlloc\<close>, which
  is \<open>2 ^ 48\<close> bytes on the 64-bit platforms. A panic is the value \<open>None\<close> here and in
  every function that can reach it. Running out of memory below the limit is not modelled.
\<close>

definition maxAlloc :: int where
  "maxAlloc = 2 ^ 48"

definition make_bytes :: "int \<Rightarrow> byte list option" where
  "make_bytes n = (if n < 0 \<or> maxAlloc < n then None else Some (replicate (nat n) 0))"

text \<open>
  Integer division in Go truncates towards zero; \<open>div\<close> on \<open>int\<close> rounds down.
\<close>

definition go_quo :: "int \<Rightarrow> int \<Rightarrow> int" where
  "go_quo a b = (if (a < 0) = (b < 0) then \<bar>a\<bar> div \<bar>b\<bar> else - (\<bar>a\<bar> div \<bar>b\<bar>))"

text \<open>
  Sizes, offsets and counters are 64-bit signed integers, modelled as \<open>int\<close>. The one
  addition of the package whose result is kept, the byte counter of \<^verbatim>\<open>Write\<close>, wraps
  around as the machine does. The conversions to \<^verbatim>\<open>uint64\<close> are \<open>word_of_int\<close>.
\<close>

definition int64 :: "int \<Rightarrow> int" where
  "int64 z = sint (word_of_int z :: 64 word)"

subsection \<open>io.ReaderAt, bytes.Reader and io.SectionReader\<close>

text \<open>
  \<^verbatim>\<open>ReadAt(p, off) (n, err)\<close> fills a prefix of \<open>p\<close> in place. The model takes the
  buffer and the offset and returns the buffer afterwards, the count and the error.
\<close>

type_synonym ReaderAt = "byte list \<Rightarrow> int \<Rightarrow> byte list \<times> int \<times> io_error option"

text \<open>\<^verbatim>\<open>bytes.NewReader(s).ReadAt\<close>, as in Go's \<^verbatim>\<open>bytes/reader.go\<close>.\<close>

definition bytes_ReadAt :: "byte list \<Rightarrow> ReaderAt" where
  "bytes_ReadAt s b off =
     (if off < 0 then (b, 0, Some errNegativeOffset)
      else if off \<ge> int (length s) then (b, 0, Some EOF)
      else (let src = drop (nat off) s;
                k = min (length b) (length src)
            in (go_copy b src, int k, if k < length b then Some EOF else None)))"

record SectionReader =
  sr_r :: ReaderAt
  sr_base :: int
  sr_off :: int
  sr_limit :: int
  sr_n :: int

definition maxint64 :: int where
  "maxint64 = 2 ^ 63 - 1"

text \<open>
  \<^verbatim>\<open>NewSectionReader(r, off, n)\<close>. The subtraction and the addition are on
  \<^verbatim>\<open>int64\<close> and wrap around.
\<close>

definition NewSectionReader :: "ReaderAt \<Rightarrow> int \<Rightarrow> int \<Rightarrow> SectionReader" where
  "NewSectionReader r off n =
     (let remaining = (if off \<le> int64 (maxint64 - n) then int64 (n + off) else maxint64)
      in \<lparr>sr_r = r, sr_base = off, sr_off = off, sr_limit = remaining, sr_n = n\<rparr>)"

definition SectionReader_Size :: "SectionReader \<Rightarrow> int" where
  "SectionReader_Size s = sr_limit s - sr_base s"

text \<open>
  \<^verbatim>\<open>Read(p)\<close>: at or past the limit nothing is read and the error is \<open>EOF\<close>;
  otherwise \<open>p\<close> is cut to the bytes left before the limit, the underlying reader
  fills that prefix, and the offset advances by the count. The rest of \<open>p\<close> keeps
  what it held. Result: buffer, count, error, reader.
\<close>

definition SectionReader_Read ::
  "SectionReader \<Rightarrow> byte list \<Rightarrow> byte list \<times> int \<times> io_error option \<times> SectionReader" where
  "SectionReader_Read s p =
     (if sr_off s \<ge> sr_limit s then (p, 0, Some EOF, s)
      else (let mx = sr_limit s - sr_off s;
                q = (if int (length p) > mx then take (nat mx) p else p);
                rest = drop (length q) p
            in (case sr_r s q (sr_off s) of
                  (q', k, err) \<Rightarrow> (q' @ rest, k, err, s\<lparr>sr_off := sr_off s + k\<rparr>))))"

text \<open>\<^verbatim>\<open>Seek(offset, whence)\<close>; whence 0, 1, 2 are start, current, end.\<close>

definition SectionReader_Seek ::
  "SectionReader \<Rightarrow> int \<Rightarrow> int \<Rightarrow> int \<times> io_error option \<times> SectionReader" where
  "SectionReader_Seek s offset whence =
     (if whence \<noteq> 0 \<and> whence \<noteq> 1 \<and> whence \<noteq> 2 then (0, Some errWhence, s)
      else (let offset' = (if whence = 0 then offset + sr_base s
                           else if whence = 1 then offset + sr_off s
                           else offset + sr_limit s)
            in if offset' < sr_base s then (0, Some errOffset, s)
               else (offset' - sr_base s, None, s\<lparr>sr_off := offset'\<rparr>)))"

subsection \<open>binary.PutUvarint\<close>

text \<open>
  \<^verbatim>\<open>
  func PutUvarint(buf []byte, x uint64) int {
      i := 0
      for x >= 0x80 { buf[i] = byte(x) | 0x80; x >>= 7; i++ }
      buf[i] = byte(x)
      return i + 1
  }
  \<close>
  An index past the end of \<open>buf\<close> panics: \<open>None\<close>.
\<close>

function PutUvarint_loop :: "byte list \<Rightarrow> nat \<Rightarrow> 64 word \<Rightarrow> (byte list \<times> nat) option" where
  "PutUvarint_loop buf i x =
     (if x \<ge> 0x80 then
        (if i < length buf
         then PutUvarint_loop (buf[i := ucast x OR 0x80]) (i + 1) (drop_bit 7 x)
         else None)
      else
        (if i < length buf then Some (buf[i := ucast x], i + 1) else None))"
  by pat_completeness auto

termination PutUvarint_loop
  apply (relation "measure (\<lambda>(buf, i, x). unat x)")
   apply simp
  apply (simp add: word_le_nat_alt drop_bit_eq_div unat_div)
  done

declare PutUvarint_loop.simps [simp del]

definition PutUvarint :: "byte list \<Rightarrow> 64 word \<Rightarrow> (byte list \<times> nat) option" where
  "PutUvarint buf x = PutUvarint_loop buf 0 x"

subsection \<open>The mixing primitive\<close>

text \<open>
  The 128-bit hasher is an external package (murmur3). Its digest function is a
  parameter \<open>mix\<close> of every operation that reads a digest: the two 64-bit halves
  for the byte stream written since the last reset. The hasher's state is the record of
  the writes made since then, one entry per call of \<^verbatim>\<open>Write\<close>; the digest is taken
  of their concatenation, the package being a streaming hash. A new hasher is in the
  state that a reset gives. An engine holds its hasher by reference; no operation of the
  package copies an engine, so the hasher is kept as a field of the engine's record.
\<close>

type_synonym mixfn = "byte list \<Rightarrow> 64 word \<times> 64 word"

type_synonym Hash128 = "byte list list"

definition murmur3_New128 :: Hash128 where
  "murmur3_New128 = []"

definition hasher_Reset :: "Hash128 \<Rightarrow> Hash128" where
  "hasher_Reset h = []"

definition hasher_Write :: "Hash128 \<Rightarrow> byte list \<Rightarrow> Hash128" where
  "hasher_Write h p = h @ [p]"

text \<open>Big-endian bytes of a 64-bit half, as the package's \<^verbatim>\<open>Sum\<close> appends them.\<close>

definition be64 :: "64 word \<Rightarrow> byte list" where
  "be64 w = [ucast (drop_bit 56 w), ucast (drop_bit 48 w), ucast (drop_bit 40 w),
             ucast (drop_bit 32 w), ucast (drop_bit 24 w), ucast (drop_bit 16 w),
             ucast (drop_bit 8 w), ucast w]"

definition hasher_Sum :: "mixfn \<Rightarrow> Hash128 \<Rightarrow> byte list \<Rightarrow> byte list" where
  "hasher_Sum mix h b = (case mix (concat h) of (h1, h2) \<Rightarrow> b @ be64 h1 @ be64 h2)"

section \<open>The package\<close>

definition Size :: nat where
  "Size = 16"

definition SampleThreshhold :: int where
  "SampleThreshhold = 128 * 1024"

definition SampleSize :: int where
  "SampleSize = 16 * 1024"

definition emptyArray :: "byte list" where
  "emptyArray = replicate Size 0"

record ImoHash =
  hasher :: Hash128
  sampleSize :: int
  sampleThreshold :: int
  bytesAdded :: int

definition NewCustom :: "int \<Rightarrow> int \<Rightarrow> ImoHash" where
  "NewCustom sampleSize' sampleThreshold' =
     \<lparr>hasher = murmur3_New128, sampleSize = sampleSize',
      sampleThreshold = sampleThreshold', bytesAdded = 0\<rparr>"

definition New :: ImoHash where
  "New = NewCustom SampleSize SampleThreshhold"

text \<open>
  \<^verbatim>\<open>hashCore\<close>. The engine and the section reader are behind pointers, so both are
  returned as they are after the call. The counts and errors of \<^verbatim>\<open>Read\<close> and
  \<^verbatim>\<open>Seek\<close> are dropped, as in the source.
\<close>

definition hashCore ::
  "mixfn \<Rightarrow> ImoHash \<Rightarrow> SectionReader \<Rightarrow> (byte list \<times> ImoHash \<times> SectionReader) option" where
  "hashCore mix imo f =
     (let result = replicate Size (0 :: byte);
          imo0 = imo\<lparr>hasher := hasher_Reset (hasher imo)\<rparr>;
          filled =
            (if SectionReader_Size f < sampleThreshold imo0 \<or> sampleSize imo0 < 1 then
               (case make_bytes (SectionReader_Size f) of
                  None \<Rightarrow> None
                | Some buffer \<Rightarrow>
                    (case SectionReader_Read f buffer of
                       (buffer1, _, _, f1) \<Rightarrow>
                         Some (imo0\<lparr>hasher := hasher_Write (hasher imo0) buffer1\<rparr>, f1)))
             else
               (case make_bytes (sampleSize imo0) of
                  None \<Rightarrow> None
                | Some buffer \<Rightarrow>
                    (case SectionReader_Read f buffer of
                       (buffer1, _, _, f1) \<Rightarrow>
                    (let imo1 = imo0\<lparr>hasher := hasher_Write (hasher imo0) buffer1\<rparr> in
                     case SectionReader_Seek f1 (go_quo (SectionReader_Size f1) 2) 0 of
                       (_, _, f2) \<Rightarrow>
                     (case SectionReader_Read f2 buffer1 of
                       (buffer2, _, _, f3) \<Rightarrow>
                    (let imo2 = imo1\<lparr>hasher := hasher_Write (hasher imo1) buffer2\<rparr> in
                     case SectionReader_Seek f3 (- sampleSize imo2) 2 of
                       (_, _, f4) \<Rightarrow>
                     (case SectionReader_Read f4 buffer2 of
                       (buffer3, _, _, f5) \<Rightarrow>
                         Some (imo2\<lparr>hasher := hasher_Write (hasher imo2) buffer3\<rparr>, f5))))))))
      in case filled of
           None \<Rightarrow> None
         | Some (imo3, f') \<Rightarrow>
             (let hash = hasher_Sum mix (hasher imo3) [] in
              case PutUvarint hash (word_of_int (SectionReader_Size f')) of
                None \<Rightarrow> None
              | Some (hash', _) \<Rightarrow> Some (go_copy result hash', imo3, f')))"

text \<open>\<^verbatim>\<open>Sum128\<close>: a fresh default engine over a section reader on the slice.\<close>

definition Sum128 :: "mixfn \<Rightarrow> byte list \<Rightarrow> byte list option" where
  "Sum128 mix data =
     (let imo = New;
          sr = NewSectionReader (bytes_ReadAt data) 0 (int (length data))
      in map_option fst (hashCore mix imo sr))"

text \<open>
  The file system as the package meets it: \<^verbatim>\<open>os.Open\<close> gives an error or a file;
  the file's \<^verbatim>\<open>Stat\<close> gives an error or the size; the file is an \<^verbatim>\<open>io.ReaderAt\<close>.
\<close>

record os_File =
  file_Stat :: "io_error + int"
  file_ReadAt :: ReaderAt

type_synonym filesystem = "string \<Rightarrow> io_error + os_File"

text \<open>
  The method \<^verbatim>\<open>(*ImoHash).SumFile\<close>. Go returns both the array and the error; the
  engine is returned as it is after the call. The deferred \<^verbatim>\<open>Close\<close> has no part in
  the result (on the nil file of a failed open it returns an error that is dropped).
\<close>

definition ImoHash_SumFile ::
  "mixfn \<Rightarrow> filesystem \<Rightarrow> ImoHash \<Rightarrow> string \<Rightarrow> ((byte list \<times> io_error option) \<times> ImoHash) option" where
  "ImoHash_SumFile mix fs imo filename =
     (case fs filename of
        Inl err \<Rightarrow> Some ((emptyArray, Some err), imo)
      | Inr f \<Rightarrow>
          (case file_Stat f of
             Inl err \<Rightarrow> Some ((emptyArray, Some err), imo)
           | Inr fi_Size \<Rightarrow>
               (let sr = NewSectionReader (file_ReadAt f) 0 fi_Size in
                case hashCore mix imo sr of
                  None \<Rightarrow> None
                | Some (res, imo', _) \<Rightarrow> Some ((res, None), imo'))))"

text \<open>The function \<^verbatim>\<open>SumFile\<close>: the method on a fresh default engine.\<close>

definition SumFile :: "mixfn \<Rightarrow> filesystem \<Rightarrow> string \<Rightarrow> (byte list \<times> io_error option) option" where
  "SumFile mix fs filename = map_option fst (ImoHash_SumFile mix fs New filename)"

text \<open>The incremental methods of \<^verbatim>\<open>hash.Hash\<close>; each returns the engine afterwards.\<close>

definition Sum :: "mixfn \<Rightarrow> ImoHash \<Rightarrow> byte list \<Rightarrow> (byte list \<times> ImoHash) option" where
  "Sum mix imo data =
     (let hash = hasher_Sum mix (hasher imo) [] in
      case PutUvarint hash (word_of_int (bytesAdded imo)) of
        None \<Rightarrow> None
      | Some (hash', _) \<Rightarrow> Some (data @ hash', imo))"

definition Write :: "ImoHash \<Rightarrow> byte list \<Rightarrow> (int \<times> io_error option) \<times> ImoHash" where
  "Write imo data =
     ((int (length data), None),
      imo\<lparr>hasher := hasher_Write (hasher imo) data,
          bytesAdded := int64 (bytesAdded imo + int (length data))\<rparr>)"

definition BlockSize :: "ImoHash \<Rightarrow> int" where
  "BlockSize imo = 1"

definition Reset :: "ImoHash \<Rightarrow> ImoHash" where
  "Reset imo = imo\<lparr>bytesAdded := 0, hasher := hasher_Reset (hasher imo)\<rparr>"

definition ImoHash_Size :: "ImoHash \<Rightarrow> int" where
  "ImoHash_Size imo = int Size"

text \<open>
  Successive calls of \<^verbatim>\<open>Sum\<close>, one for each prefix of the list, with no other call
  on the engine in between; the outputs in order and the engine at the end.
\<close>

fun Sum_each :: "mixfn \<Rightarrow> ImoHash \<Rightarrow> byte list list \<Rightarrow> (byte list list \<times> ImoHash) option" where
  "Sum_each mix imo [] = Some ([], imo)"
| "Sum_each mix imo (p # ps) =
     (case Sum mix imo p of
        None \<Rightarrow> None
      | Some (out, imo1) \<Rightarrow>
          (case Sum_each mix imo1 ps of
             None \<Rightarrow> None
           | Some (outs, imo2) \<Rightarrow> Some (out # outs, imo2)))"

section \<open>The specification's side\<close>

text \<open>
  The variable-length encoding of an unsigned integer as the specification describes it:
  seven bits per byte, least significant group first, the top bit of a byte set while
  more bytes follow.
\<close>

fun uvarint :: "nat \<Rightarrow> byte list" where
  "uvarint x = (if x < 128 then [of_nat x] else of_nat (x mod 128 + 128) # uvarint (x div 128))"

declare uvarint.simps [simp del]

text \<open>
  The identifier for a raw digest and a length: the encoding of the length written over
  the leading bytes of the digest, the remaining bytes of the digest kept.
\<close>

definition embed_length :: "byte list \<Rightarrow> nat \<Rightarrow> byte list" where
  "embed_length digest len = uvarint len @ drop (length (uvarint len)) digest"

text \<open>The raw 16-byte digest of a byte stream.\<close>

definition raw_digest :: "mixfn \<Rightarrow> byte list \<Rightarrow> byte list" where
  "raw_digest mix bs = (case mix bs of (h1, h2) \<Rightarrow> be64 h1 @ be64 h2)"

text \<open>Unconditional whole-content mixing of a buffer, with its length embedded.\<close>

definition whole_content_identifier :: "mixfn \<Rightarrow> byte list \<Rightarrow> byte list" where
  "whole_content_identifier mix B = embed_length (raw_digest mix B) (length B)"

text \<open>A sample window: \<open>len\<close> bytes of \<open>B\<close> from position \<open>pos\<close>.\<close>

definition window :: "byte list \<Rightarrow> nat \<Rightarrow> nat \<Rightarrow> byte list" where
  "window B pos len = take len (drop pos B)"

section \<open>Concrete inputs for the examples\<close>

text \<open>
  A small stand-in for the digest function, sensitive to the length and to every byte,
  to run the operations on concrete inputs.
\<close>

definition example_mix :: mixfn where
  "example_mix bs = (word_of_nat (length bs), foldl (\<lambda>a b. a * 31 + ucast b) 0 bs)"

text \<open>A file that opens and reports one byte, and whose every read fails.\<close>

definition failing_ReadAt :: ReaderAt where
  "failing_ReadAt b off = (b, 0, Some (OSError ''input/output error''))"

definition failing_file :: os_File where
  "failing_file = \<lparr>file_Stat = Inr 1, file_ReadAt = failing_ReadAt\<rparr>"

text \<open>
  A file system with that file, a file that cannot be inspected, and nothing else.
\<close>

definition example_fs :: filesystem where
  "example_fs name =
     (if name = ''broken'' then Inr failing_file
      else if name = ''nostat''
        then Inr \<lparr>file_Stat = Inl (OSError ''stat failed''), file_ReadAt = bytes_ReadAt []\<rparr>
      else Inl (OSError ''no such file or directory''))"

section \<open>The variable-length encoding\<close>

lemma uvarint_length_pos: "1 \<le> length (uvarint x)"
  by (subst uvarint.simps) simp

lemma uvarint_length_le: "1 \<le> k \<Longrightarrow> x < 2 ^ (7 * k) \<Longrightarrow> length (uvarint x) \<le> k"
proof (induction k arbitrary: x)
  case 0
  then show ?case by simp
next
  case (Suc k)
  show ?case
  proof (cases "x < 128")
    case True
    then show ?thesis by (subst uvarint.simps) simp
  next
    case False
    then have k: "1 \<le> k"
      using Suc.prems by (cases k) auto
    have "x div 128 < 2 ^ (7 * k)"
      using Suc.prems(2) by (simp add: less_mult_imp_div_less power_add mult.commute)
    from Suc.IH [OF k this] False show ?thesis
      by (subst uvarint.simps) simp
  qed
qed

lemma uvarint_length_u64: "length (uvarint (unat (x :: 64 word))) \<le> 10"
proof -
  have "unat x < 2 ^ 64"
    using unsigned_less [of x] by simp
  then have "unat x < 2 ^ (7 * 10)"
    by simp
  then show ?thesis
    by (intro uvarint_length_le) simp_all
qed

lemma uvarint_length_i64: "x < 2 ^ 63 \<Longrightarrow> length (uvarint x) \<le> 9"
  by (rule uvarint_length_le) simp_all

lemma take_bit_add_exp: "take_bit k (m::nat) + 2 ^ k = take_bit k m OR 2 ^ k"
  by (rule disjunctive_add_eq_or, rule bit_eqI) (auto simp: bit_simps)

lemma take_bit_Suc_or_exp:
  "take_bit (Suc k) ((m::nat) OR 2 ^ k) = take_bit (Suc k) (take_bit k m + 2 ^ k)"
  unfolding take_bit_add_exp
  by (rule bit_eqI) (auto simp: bit_simps less_Suc_eq)

lemma continuation_byte:
  fixes x :: "64 word"
  shows "(ucast x OR 0x80 :: byte) = of_nat (unat x mod 128 + 128)"
proof -
  have "(ucast x OR 0x80 :: byte) = of_nat (unat x) OR of_nat (2 ^ 7)"
    by simp
  also have "\<dots> = of_nat (unat x OR 2 ^ 7)"
    by (simp only: of_nat_or_eq)
  also have "\<dots> = of_nat (take_bit 7 (unat x) + 2 ^ 7)"
    using take_bit_Suc_or_exp [of 7 "unat x"]
    by (simp only: word_of_nat_eq_iff) simp
  finally show ?thesis
    by (simp add: take_bit_eq_mod)
qed

lemma unat_drop_bit_7: "unat (drop_bit 7 (x :: 64 word)) = unat x div 128"
  by (simp add: drop_bit_eq_div unat_div)

lemma take_Suc_update: "i < length xs \<Longrightarrow> take (Suc i) (xs[i := c]) = take i xs @ [c]"
  by (simp add: take_Suc_conv_app_nth)

text \<open>
  The loop of \<^verbatim>\<open>PutUvarint\<close> writes exactly the encoding, from index \<open>i\<close> on, and
  touches nothing else, whenever the encoding fits.
\<close>

lemma PutUvarint_loop_eq:
  "i + length (uvarint (unat x)) \<le> length buf \<Longrightarrow>
   PutUvarint_loop buf i x =
     Some (take i buf @ uvarint (unat x) @ drop (i + length (uvarint (unat x))) buf,
           i + length (uvarint (unat x)))"
proof (induction buf i x rule: PutUvarint_loop.induct)
  case (1 buf i x)
  have pos: "1 \<le> length (uvarint (unat x))"
    by (rule uvarint_length_pos)
  with "1.prems" have i: "i < length buf"
    by simp
  show ?case
  proof (cases "x \<ge> 0x80")
    case True
    then have big: "\<not> unat x < 128"
      by (simp add: word_le_nat_alt)
    have enc: "uvarint (unat x) = (ucast x OR 0x80) # uvarint (unat (drop_bit 7 x))"
      using big by (subst uvarint.simps) (simp add: continuation_byte unat_drop_bit_7)
    have "PutUvarint_loop (buf[i := ucast x OR 0x80]) (i + 1) (drop_bit 7 x) =
          Some (take (i + 1) (buf[i := ucast x OR 0x80]) @ uvarint (unat (drop_bit 7 x)) @
                  drop (i + 1 + length (uvarint (unat (drop_bit 7 x))))
                    (buf[i := ucast x OR 0x80]),
                i + 1 + length (uvarint (unat (drop_bit 7 x))))"
      using "1.prems" True i by (intro "1.IH") (simp_all add: enc)
    then show ?thesis
      using True i by (subst PutUvarint_loop.simps) (simp add: enc take_Suc_update)
  next
    case False
    then have small: "unat x < 128"
      by (simp add: word_le_nat_alt not_le)
    have enc: "uvarint (unat x) = [ucast x]"
      using small by (subst uvarint.simps) simp
    show ?thesis
      using False i by (subst PutUvarint_loop.simps) (simp add: enc upd_conv_take_nth_drop)
  qed
qed

lemma PutUvarint_eq:
  assumes "10 \<le> length buf"
  shows "PutUvarint buf x =
           Some (embed_length buf (unat x), length (uvarint (unat x)))"
proof -
  have "0 + length (uvarint (unat x)) \<le> length buf"
    using uvarint_length_u64 [of x] assms by simp
  from PutUvarint_loop_eq [OF this] show ?thesis
    by (simp add: PutUvarint_def embed_length_def)
qed

lemma length_be64: "length (be64 w) = 8"
  by (simp add: be64_def)

lemma length_raw_digest: "length (raw_digest mix bs) = 16"
  by (simp add: raw_digest_def length_be64 split: prod.split)

lemma hasher_Sum_raw: "hasher_Sum mix h b = b @ raw_digest mix (concat h)"
  by (simp add: hasher_Sum_def raw_digest_def split: prod.split)

lemma length_embed_length:
  "length (uvarint len) \<le> length digest \<Longrightarrow> length (embed_length digest len) = length digest"
  by (simp add: embed_length_def)

lemma length_embed_u64:
  "length (embed_length (raw_digest mix bs) (unat (x :: 64 word))) = 16"
  using uvarint_length_u64 [of x] by (simp add: length_embed_length length_raw_digest)

lemma go_copy_same_length: "length dst = length src \<Longrightarrow> go_copy dst src = src"
  by (simp add: go_copy_def)

section \<open>The section reader\<close>

lemma int64_id: "0 \<le> z \<Longrightarrow> z \<le> maxint64 \<Longrightarrow> int64 z = z"
  by (simp add: int64_def signed_of_int signed_take_bit_int_eq_self maxint64_def)

lemma maxAlloc_le_maxint64: "z \<le> maxAlloc \<Longrightarrow> z \<le> maxint64"
  by (simp add: maxAlloc_def maxint64_def)

lemma Read_frame:
  "SectionReader_Read s p = (p', k, e, s') \<Longrightarrow>
   sr_limit s' = sr_limit s \<and> sr_base s' = sr_base s \<and> sr_r s' = sr_r s"
  by (auto simp: SectionReader_Read_def Let_def split: if_splits prod.splits)

lemma Seek_frame:
  "SectionReader_Seek s offset whence = (pos, e, s') \<Longrightarrow>
   sr_limit s' = sr_limit s \<and> sr_base s' = sr_base s \<and> sr_r s' = sr_r s"
  by (auto simp: SectionReader_Seek_def Let_def split: if_splits)

lemma Read_Size:
  "SectionReader_Read s p = (p', k, e, s') \<Longrightarrow> SectionReader_Size s' = SectionReader_Size s"
  by (drule Read_frame) (simp add: SectionReader_Size_def)

lemma Seek_Size:
  "SectionReader_Seek s offset whence = (pos, e, s') \<Longrightarrow>
   SectionReader_Size s' = SectionReader_Size s"
  by (drule Seek_frame) (simp add: SectionReader_Size_def)


lemma NewSectionReader_nonneg:
  "0 \<le> n \<Longrightarrow> n \<le> maxint64 \<Longrightarrow>
   NewSectionReader r 0 n =
     \<lparr>sr_r = r, sr_base = 0, sr_off = 0, sr_limit = n, sr_n = n\<rparr>"
  by (simp add: NewSectionReader_def int64_id)

lemma NewSectionReader_bytes:
  "int (length B) \<le> maxint64 \<Longrightarrow>
   NewSectionReader (bytes_ReadAt B) 0 (int (length B)) =
     \<lparr>sr_r = bytes_ReadAt B, sr_base = 0, sr_off = 0,
      sr_limit = int (length B), sr_n = int (length B)\<rparr>"
  by (simp add: NewSectionReader_nonneg)

lemma Read_bytes:
  assumes "0 \<le> off"
  shows "SectionReader_Read
           \<lparr>sr_r = bytes_ReadAt B, sr_base = b, sr_off = off,
            sr_limit = int (length B), sr_n = m\<rparr> p =
         (go_copy p (drop (nat off) B),
          int (min (length p) (length B - nat off)),
          (if int (length B) \<le> off then Some EOF else None),
          \<lparr>sr_r = bytes_ReadAt B, sr_base = b,
           sr_off = off + int (min (length p) (length B - nat off)),
           sr_limit = int (length B), sr_n = m\<rparr>)"
proof (cases "int (length B) \<le> off")
  case True
  then show ?thesis
    using assms by (simp add: SectionReader_Read_def go_copy_def)
next
  case False
  then have lt: "nat off < length B"
    using assms by linarith
  have d: "int (length B - nat off) = int (length B) - off"
    using assms lt by (simp add: of_nat_diff)
  show ?thesis
  proof (cases "int (length p) > int (length B) - off")
    case True
    then have "length B - nat off < length p"
      using d by linarith
    then show ?thesis
      using False assms lt True
      by (simp add: SectionReader_Read_def bytes_ReadAt_def go_copy_def Let_def min_def
          nat_diff_distrib)
  next
    case F2: False
    then have nl: "length p \<le> length B - nat off"
      using d by linarith
    then have "\<not> int (length B) - off < int (length p)"
      using F2 by simp
    then show ?thesis
      using False assms lt nl
      by (simp add: SectionReader_Read_def bytes_ReadAt_def go_copy_def Let_def min_def)
  qed
qed

section \<open>The one-shot computation\<close>

lemma finish_eq:
  "(case PutUvarint (hasher_Sum mix h []) x of
      None \<Rightarrow> None
    | Some (hash', _) \<Rightarrow> Some (go_copy (replicate Size 0) hash', imo3, f')) =
   Some (embed_length (raw_digest mix (concat h)) (unat x), imo3, f')"
  by (simp add: hasher_Sum_raw PutUvarint_eq length_raw_digest go_copy_same_length
      length_embed_u64 Size_def)

lemma hashCore_SomeD:
  assumes "hashCore mix imo f = Some (res, imo', f')"
  shows "res = embed_length (raw_digest mix (concat (hasher imo')))
                 (unat (word_of_int (SectionReader_Size f) :: 64 word))"
    and "bytesAdded imo' = bytesAdded imo"
    and "sampleSize imo' = sampleSize imo"
    and "sampleThreshold imo' = sampleThreshold imo"
    and "SectionReader_Size f' = SectionReader_Size f"
  using assms
  unfolding hashCore_def Let_def finish_eq
  by (auto split: option.splits prod.splits if_splits dest!: Read_Size Seek_Size)

lemma unat_size_u64:
  "int n \<le> maxint64 \<Longrightarrow> unat (word_of_nat n :: 64 word) = n"
  by (simp add: maxint64_def unat_of_nat)

lemma length_go_copy: "length (go_copy dst src) = length dst"
  by (simp add: go_copy_def min_def)

lemma go_copy_window:
  "length dst = len \<Longrightarrow> pos + len \<le> length B \<Longrightarrow> go_copy dst (drop pos B) = window B pos len"
  by (simp add: go_copy_def window_def min_def)

lemma hashCore_bytes_whole:
  assumes alloc: "int (length B) \<le> maxAlloc"
    and whole: "int (length B) < sampleThreshold imo \<or> sampleSize imo < 1"
  shows "hashCore mix imo (NewSectionReader (bytes_ReadAt B) 0 (int (length B))) =
         Some (whole_content_identifier mix B, imo\<lparr>hasher := [B]\<rparr>,
               \<lparr>sr_r = bytes_ReadAt B, sr_base = 0, sr_off = int (length B),
                sr_limit = int (length B), sr_n = int (length B)\<rparr>)"
proof -
  have len: "int (length B) \<le> maxint64"
    using alloc by (rule maxAlloc_le_maxint64)
  show ?thesis
    using whole alloc
    unfolding hashCore_def Let_def finish_eq NewSectionReader_bytes [OF len]
    by (simp add: SectionReader_Size_def make_bytes_def Read_bytes go_copy_same_length
        hasher_Reset_def hasher_Write_def whole_content_identifier_def unat_size_u64 [OF len])
qed


lemma hashCore_bytes_sampling:
  assumes len: "int (length B) \<le> maxint64"
    and sampling: "\<not> (int (length B) < sampleThreshold imo \<or> sampleSize imo < 1)"
    and alloc: "sampleSize imo \<le> maxAlloc"
  shows "\<exists>f'. hashCore mix imo (NewSectionReader (bytes_ReadAt B) 0 (int (length B))) =
           (let n = nat (sampleSize imo);
                b1 = go_copy (replicate n 0) B;
                b2 = go_copy b1 (drop (length B div 2) B);
                b3 = go_copy b2 (if length B < n then [] else drop (length B - n) B)
            in Some (embed_length (raw_digest mix (b1 @ b2 @ b3)) (length B),
                     imo\<lparr>hasher := [b1, b2, b3]\<rparr>, f'))"
  using sampling alloc
  unfolding hashCore_def Let_def finish_eq NewSectionReader_bytes [OF len]
  by (simp add: SectionReader_Size_def make_bytes_def Read_bytes SectionReader_Seek_def
      hasher_Reset_def hasher_Write_def unat_size_u64 [OF len] length_go_copy Let_def
      nat_div_distrib nat_diff_distrib go_quo_def)

lemma hashCore_bytes_windows:
  assumes len: "int (length B) \<le> maxint64"
    and sampling: "\<not> (int (length B) < sampleThreshold imo \<or> sampleSize imo < 1)"
    and inside: "int (length B) div 2 + sampleSize imo \<le> int (length B)"
    and alloc: "sampleSize imo \<le> maxAlloc"
  shows "hashCore mix imo (NewSectionReader (bytes_ReadAt B) 0 (int (length B))) =
           Some (embed_length
                   (raw_digest mix
                      (window B 0 (nat (sampleSize imo)) @
                       window B (length B div 2) (nat (sampleSize imo)) @
                       window B (length B - nat (sampleSize imo)) (nat (sampleSize imo))))
                   (length B),
                 imo\<lparr>hasher := [window B 0 (nat (sampleSize imo)),
                                 window B (length B div 2) (nat (sampleSize imo)),
                                 window B (length B - nat (sampleSize imo)) (nat (sampleSize imo))]\<rparr>,
                 \<lparr>sr_r = bytes_ReadAt B, sr_base = 0, sr_off = int (length B),
                  sr_limit = int (length B), sr_n = int (length B)\<rparr>)"
proof -
  let ?n = "nat (sampleSize imo)"
  have n: "int ?n = sampleSize imo" and n1: "1 \<le> sampleSize imo"
    using sampling by simp_all
  have mid: "length B div 2 + ?n \<le> length B"
    using inside n by (simp add: zdiv_int [symmetric] del: of_nat_div)
  have b1: "go_copy (replicate ?n 0) B = window B 0 ?n"
    using go_copy_window [of "replicate ?n 0" ?n 0 B] mid by simp
  have b2: "go_copy (window B 0 ?n) (drop (length B div 2) B) = window B (length B div 2) ?n"
    using mid by (intro go_copy_window) (simp_all add: window_def)
  have b3: "go_copy (window B (length B div 2) ?n) (drop (length B - ?n) B) =
            window B (length B - ?n) ?n"
    using mid by (intro go_copy_window) (simp_all add: window_def)
  have ge: "\<not> int (length B) < sampleSize imo"
    using mid n by linarith
  have l2: "length (window B (length B div 2) ?n) = ?n"
    using mid by (simp add: window_def)
  have l1: "length (window B 0 ?n) = ?n"
    using mid by (simp add: window_def)
  show ?thesis
    using sampling ge alloc
    unfolding hashCore_def Let_def finish_eq NewSectionReader_bytes [OF len]
    by (simp add: SectionReader_Size_def make_bytes_def Read_bytes SectionReader_Seek_def
        hasher_Reset_def hasher_Write_def unat_size_u64 [OF len] Let_def
        nat_div_distrib nat_diff_distrib go_quo_def b1 b2 b3 l1 l2)
qed

text \<open>
  The call panics exactly when the allocation of its buffer does: nothing else in it can.
\<close>

lemma hashCore_None_iff:
  "(hashCore mix imo f = None) =
     (make_bytes (if SectionReader_Size f < sampleThreshold imo \<or> sampleSize imo < 1
                  then SectionReader_Size f else sampleSize imo) = None)"
  unfolding hashCore_def Let_def finish_eq
  by (auto split: option.splits prod.splits)

lemma hashCore_writes:
  assumes "hashCore mix imo f = Some (res, imo', f')"
  shows "if SectionReader_Size f < sampleThreshold imo \<or> sampleSize imo < 1
         then hasher imo' =
                [fst (SectionReader_Read f (replicate (nat (SectionReader_Size f)) 0))]
         else length (hasher imo') = 3"
  using assms
  unfolding hashCore_def Let_def finish_eq
  by (auto simp: make_bytes_def hasher_Reset_def hasher_Write_def
      split: option.splits prod.splits if_splits)

lemma hashCore_engine:
  assumes "hashCore mix imo f = Some (res, imo', f')"
  shows "imo' = imo\<lparr>hasher := hasher imo'\<rparr>"
  using assms
  unfolding hashCore_def Let_def finish_eq
  by (auto split: option.splits prod.splits if_splits)

lemma hashCore_hasher_irrelevant:
  "hashCore mix (imo\<lparr>hasher := h\<rparr>) f = hashCore mix imo f"
  unfolding hashCore_def Let_def finish_eq
  by (simp add: hasher_Reset_def hasher_Write_def split: option.splits prod.splits)

lemma unat_int64:
  assumes "0 \<le> z" "z \<le> maxint64"
  shows "unat (word_of_int z :: 64 word) = nat z"
proof -
  have "nat z < 2 ^ 64"
    using assms by (simp add: maxint64_def nat_less_iff)
  then have "unat (word_of_nat (nat z) :: 64 word) = nat z"
    by (simp add: unat_of_nat)
  then show ?thesis
    using assms(1) by simp
qed

lemma take_embed_length: "take (length (uvarint len)) (embed_length digest len) = uvarint len"
  by (simp add: embed_length_def)

lemma drop_embed_length:
  "drop (length (uvarint len)) (embed_length digest len) = drop (length (uvarint len)) digest"
  by (simp add: embed_length_def)

lemma length_window: "pos + len \<le> length B \<Longrightarrow> length (window B pos len) = len"
  by (simp add: window_def)

lemma windows_cover:
  assumes len: "length B' = length B"
    and short: "length B < 2 * n"
    and first: "take n B' = take n B"
    and last: "drop (length B - n) B' = drop (length B - n) B"
  shows "B' = B"
proof -
  have "drop n B' = drop (n - (length B - n)) (drop (length B - n) B')"
    using short by simp
  also have "\<dots> = drop (n - (length B - n)) (drop (length B - n) B)"
    by (simp only: last)
  also have "\<dots> = drop n B"
    using short by simp
  finally have "take n B' @ drop n B' = take n B @ drop n B"
    using first by simp
  then show ?thesis
    by simp
qed

lemma Sum128_returns:
  assumes "int (length B) \<le> maxint64"
  shows "\<exists>r. Sum128 mix B = Some r \<and> length r = 16"
proof -
  let ?f = "NewSectionReader (bytes_ReadAt B) 0 (int (length B))"
  have size: "SectionReader_Size ?f = int (length B)"
    by (simp add: NewSectionReader_bytes [OF assms] SectionReader_Size_def)
  have "hashCore mix New ?f \<noteq> None"
    unfolding hashCore_None_iff size
    by (simp add: make_bytes_def maxAlloc_def New_def NewCustom_def SampleThreshhold_def
        SampleSize_def)
  then obtain r e g where run: "hashCore mix New ?f = Some (r, e, g)"
    by auto
  have "length r = 16"
    using hashCore_SomeD(1) [OF run] by (simp add: length_embed_u64)
  then show ?thesis
    using run by (simp add: Sum128_def)
qed

section \<open>The incremental methods\<close>

lemma Sum_eq:
  "Sum mix imo data =
     Some (data @ embed_length (raw_digest mix (concat (hasher imo)))
                     (unat (word_of_int (bytesAdded imo) :: 64 word)), imo)"
  by (simp add: Sum_def Let_def hasher_Sum_raw PutUvarint_eq length_raw_digest)

lemma Sum_each_eq:
  "Sum_each mix imo ps =
     Some (map (\<lambda>p. p @ embed_length (raw_digest mix (concat (hasher imo)))
                          (unat (word_of_int (bytesAdded imo) :: 64 word))) ps, imo)"
  by (induction ps) (simp_all add: Sum_eq)

lemma Write_Reset:
  "int (length B) \<le> maxint64 \<Longrightarrow>
   snd (Write (Reset imo) B) = imo\<lparr>bytesAdded := int (length B), hasher := [B]\<rparr>"
  by (simp add: Write_def Reset_def hasher_Reset_def hasher_Write_def int64_id)

lemma Write_New:
  "int (length B) \<le> maxint64 \<Longrightarrow>
   snd (Write New B) = New\<lparr>bytesAdded := int (length B), hasher := [B]\<rparr>"
  by (simp add: Write_def New_def NewCustom_def murmur3_New128_def hasher_Write_def int64_id)

lemma SumFile_bytesAdded:
  assumes "ImoHash_SumFile mix fs imo name = Some (out, imo')"
  shows "bytesAdded imo' = bytesAdded imo"
  using assms
  by (auto simp: ImoHash_SumFile_def Let_def
      split: sum.splits option.splits prod.splits dest: hashCore_SomeD(2))

section \<open>The claims\<close>

text \<open>
  Claim C1, as amended. When the file cannot be opened, or cannot be inspected for its
  size, \<^verbatim>\<open>SumFile\<close> (the method and the function) returns that error at once, the
  array returned with it is the all-zero array and not a digest, and the engine is left
  as it was.
\<close>

theorem C1_open_stat_failure_surfaced:
  assumes "fs name = Inl e \<or> (\<exists>f. fs name = Inr f \<and> file_Stat f = Inl e)"
  shows "ImoHash_SumFile mix fs imo name = Some ((emptyArray, Some e), imo) \<and>
         SumFile mix fs name = Some (emptyArray, Some e) \<and>
         emptyArray = replicate 16 0"
  using assms
  by (auto simp: ImoHash_SumFile_def SumFile_def emptyArray_def Size_def)

text \<open>The amended claim at a missing file and at a file whose inspection fails.\<close>

theorem C1_open_stat_failure_surfaced_witness:
  "(example_fs ''absent'' = Inl (OSError ''no such file or directory'') \<and>
    SumFile example_mix example_fs ''absent'' =
      Some (replicate 16 0, Some (OSError ''no such file or directory''))) \<and>
   ((\<exists>f. example_fs ''nostat'' = Inr f \<and> file_Stat f = Inl (OSError ''stat failed'')) \<and>
    SumFile example_mix example_fs ''nostat'' =
      Some (replicate 16 0, Some (OSError ''stat failed'')))"
proof -
  have h1: "example_fs ''absent'' = Inl (OSError ''no such file or directory'') \<or>
            (\<exists>f. example_fs ''absent'' = Inr f \<and>
                 file_Stat f = Inl (OSError ''no such file or directory''))"
    by (simp add: example_fs_def)
  have h2: "example_fs ''nostat'' = Inl (OSError ''stat failed'') \<or>
            (\<exists>f. example_fs ''nostat'' = Inr f \<and> file_Stat f = Inl (OSError ''stat failed''))"
    by (simp add: example_fs_def)
  from C1_open_stat_failure_surfaced
      [where fs = example_fs and name = "''absent''" and mix = example_mix and imo = New, OF h1]
    C1_open_stat_failure_surfaced
      [where fs = example_fs and name = "''nostat''" and mix = example_mix and imo = New, OF h2]
  show ?thesis
    by (simp add: example_fs_def)
qed

text \<open>
  The claim as written fails for read errors: \<^verbatim>\<open>hashCore\<close> has no error result and
  drops what \<^verbatim>\<open>Read\<close> returns. On a one-byte file whose every read fails, the read
  reports the failure, and \<^verbatim>\<open>SumFile\<close> still returns a nil error and an identifier
  made from the untouched zero buffer.
\<close>

theorem C1_counterexample:
  "fst (snd (snd (SectionReader_Read (NewSectionReader failing_ReadAt 0 1) [0]))) =
     Some (OSError ''input/output error'') \<and>
   example_fs ''broken'' = Inr failing_file \<and>
   SumFile example_mix example_fs ''broken'' =
     Some ([1, 0, 0, 0, 0, 0, 0, 1, 0, 0, 0, 0, 0, 0, 0, 0], None)"
proof -
  have enc: "uvarint (Suc 0) = [1]"
    by (subst uvarint.simps) simp
  have "hashCore example_mix New (NewSectionReader failing_ReadAt 0 1) =
          Some ([1, 0, 0, 0, 0, 0, 0, 1, 0, 0, 0, 0, 0, 0, 0, 0],
                New\<lparr>hasher := [[0]]\<rparr>, NewSectionReader failing_ReadAt 0 1)"
    unfolding hashCore_def Let_def finish_eq
    by (simp add: New_def NewCustom_def SampleThreshhold_def SampleSize_def
        NewSectionReader_nonneg maxint64_def maxAlloc_def SectionReader_Size_def make_bytes_def
        SectionReader_Read_def failing_ReadAt_def hasher_Reset_def hasher_Write_def
        murmur3_New128_def embed_length_def raw_digest_def example_mix_def be64_def enc)
  then show ?thesis
    by (simp add: SumFile_def ImoHash_SumFile_def example_fs_def failing_file_def
        SectionReader_Read_def NewSectionReader_nonneg maxint64_def failing_ReadAt_def)
qed

text \<open>
  Claim C2, as amended. For a byte buffer of \<open>S\<close> bytes with
  \<open>S \<ge> sampleThreshold\<close>, \<open>sampleSize \<ge> 1\<close> and \<open>S div 2 + sampleSize \<le> S\<close>
  (the middle window ends inside the source), the one-shot path makes exactly three writes
  to the mixing primitive, each of \<open>sampleSize\<close> bytes, in this order: the bytes from 0,
  the bytes from \<open>S div 2\<close>, the bytes from \<open>S - sampleSize\<close>; the reader ends at
  offset \<open>S\<close>. The sample buffer is within the allocation limit, as it is whenever a
  buffer of \<open>S \<ge> sampleSize\<close> bytes exists.
\<close>

theorem C2_three_windows:
  assumes "int (length B) \<le> maxint64"
    and "sampleThreshold imo \<le> int (length B)"
    and "1 \<le> sampleSize imo"
    and "int (length B) div 2 + sampleSize imo \<le> int (length B)"
    and "sampleSize imo \<le> maxAlloc"
  shows "\<exists>res imo' f'.
           hashCore mix imo (NewSectionReader (bytes_ReadAt B) 0 (int (length B))) =
             Some (res, imo', f') \<and>
           hasher imo' =
             [window B 0 (nat (sampleSize imo)),
              window B (length B div 2) (nat (sampleSize imo)),
              window B (length B - nat (sampleSize imo)) (nat (sampleSize imo))] \<and>
           length (window B 0 (nat (sampleSize imo))) = nat (sampleSize imo) \<and>
           length (window B (length B div 2) (nat (sampleSize imo))) = nat (sampleSize imo) \<and>
           length (window B (length B - nat (sampleSize imo)) (nat (sampleSize imo))) =
             nat (sampleSize imo) \<and>
           sr_off f' = int (length B)"
proof -
  let ?n = "nat (sampleSize imo)"
  have sampling: "\<not> (int (length B) < sampleThreshold imo \<or> sampleSize imo < 1)"
    using assms(2,3) by simp
  have mid: "length B div 2 + ?n \<le> length B"
    using assms(3,4) by (simp add: zdiv_int [symmetric] del: of_nat_div)
  have "length (window B 0 ?n) = ?n" "length (window B (length B div 2) ?n) = ?n"
    "length (window B (length B - ?n) ?n) = ?n"
    using mid by (simp_all add: length_window)
  then show ?thesis
    by (simp add: hashCore_bytes_windows [OF assms(1) sampling assms(4) assms(5)])
qed

text \<open>The amended claim at seven bytes with samples of two bytes.\<close>

theorem C2_three_windows_witness:
  "int (length [1, 2, 3, 4, 5, 6, 7 :: byte]) \<le> maxint64 \<and>
   sampleThreshold (NewCustom 2 4) \<le> int (length [1, 2, 3, 4, 5, 6, 7 :: byte]) \<and>
   1 \<le> sampleSize (NewCustom 2 4) \<and>
   int (length [1, 2, 3, 4, 5, 6, 7 :: byte]) div 2 + sampleSize (NewCustom 2 4) \<le>
     int (length [1, 2, 3, 4, 5, 6, 7 :: byte]) \<and>
   sampleSize (NewCustom 2 4) \<le> maxAlloc \<and>
   (\<exists>res imo' f'.
      hashCore example_mix (NewCustom 2 4)
        (NewSectionReader (bytes_ReadAt [1, 2, 3, 4, 5, 6, 7]) 0 7) = Some (res, imo', f') \<and>
      hasher imo' = [[1, 2], [4, 5], [6, 7]] \<and> sr_off f' = 7)"
proof -
  have h1: "int (length [1, 2, 3, 4, 5, 6, 7 :: byte]) \<le> maxint64"
    by (simp add: maxint64_def)
  have h2: "sampleThreshold (NewCustom 2 4) \<le> int (length [1, 2, 3, 4, 5, 6, 7 :: byte])"
    by (simp add: NewCustom_def)
  have h3: "1 \<le> sampleSize (NewCustom 2 4)"
    by (simp add: NewCustom_def)
  have h4: "int (length [1, 2, 3, 4, 5, 6, 7 :: byte]) div 2 + sampleSize (NewCustom 2 4) \<le>
            int (length [1, 2, 3, 4, 5, 6, 7 :: byte])"
    by (simp add: NewCustom_def)
  have h5: "sampleSize (NewCustom 2 4) \<le> maxAlloc"
    by (simp add: NewCustom_def maxAlloc_def)
  have w: "nat (sampleSize (NewCustom 2 4)) = 2"
    by (simp add: NewCustom_def)
  from C2_three_windows [OF h1 h2 h3 h4 h5, of example_mix] h1 h2 h3 h4 h5 show ?thesis
    unfolding w by (auto simp: window_def)
qed

text \<open>
  The claim as written fails when the middle window runs past the end of the source: with
  samples of two bytes on the two-byte buffer \<open>[1, 2]\<close> the second read gets one byte,
  and the second write is that byte followed by a byte left in the buffer by the first read.
\<close>

theorem C2_counterexample:
  "sampleThreshold (NewCustom 2 0) \<le> int (length [1, 2 :: byte]) \<and>
   1 \<le> sampleSize (NewCustom 2 0) \<and>
   map_option (hasher \<circ> fst \<circ> snd)
     (hashCore example_mix (NewCustom 2 0) (NewSectionReader (bytes_ReadAt [1, 2]) 0 2)) =
     Some [[1, 2], [2, 2], [1, 2]] \<and>
   window [1, 2 :: byte] (2 div 2) 2 = [2]"
proof -
  have len: "int (length [1, 2 :: byte]) \<le> maxint64"
    by (simp add: maxint64_def)
  have "\<not> (int (length [1, 2 :: byte]) < sampleThreshold (NewCustom 2 0) \<or>
            sampleSize (NewCustom 2 0) < 1)"
    by (simp add: NewCustom_def)
  moreover have "sampleSize (NewCustom 2 0) \<le> maxAlloc"
    by (simp add: NewCustom_def maxAlloc_def)
  ultimately show ?thesis
    using hashCore_bytes_sampling [OF len, of "NewCustom 2 0" example_mix]
    by (auto simp: NewCustom_def Let_def go_copy_def window_def murmur3_New128_def)
qed

text \<open>
  Claim C3. A one-shot computation returns unless the allocation of its buffer panics,
  and every identifier it returns, for any engine and any reader, is exactly 16 bytes:
  its leading bytes are the variable-length encoding of the source's size as an unsigned
  64-bit value (one to ten bytes; one to nine for a size in the range of a signed 64-bit
  integer), written over the raw 16-byte digest of the mixing primitive, and the bytes
  after the encoding are the raw digest's bytes at the same positions.
\<close>

theorem C3_identifier_layout:
  "(hashCore mix imo f = None) =
     (make_bytes (if SectionReader_Size f < sampleThreshold imo \<or> sampleSize imo < 1
                  then SectionReader_Size f else sampleSize imo) = None) \<and>
   (hashCore mix imo f = Some (res, imo', f') \<longrightarrow>
      length res = 16 \<and>
      (let enc = uvarint (unat (word_of_int (SectionReader_Size f) :: 64 word));
           raw = hasher_Sum mix (hasher imo') []
       in length raw = 16 \<and> 1 \<le> length enc \<and> length enc \<le> 10 \<and>
          take (length enc) res = enc \<and>
          drop (length enc) res = drop (length enc) raw \<and>
          (0 \<le> SectionReader_Size f \<and> SectionReader_Size f \<le> maxint64 \<longrightarrow>
             enc = uvarint (nat (SectionReader_Size f)) \<and> length enc \<le> 9)))"
proof (intro conjI impI)
  show "(hashCore mix imo f = None) =
     (make_bytes (if SectionReader_Size f < sampleThreshold imo \<or> sampleSize imo < 1
                  then SectionReader_Size f else sampleSize imo) = None)"
    by (rule hashCore_None_iff)
next
  assume run: "hashCore mix imo f = Some (res, imo', f')"
  let ?x = "word_of_int (SectionReader_Size f) :: 64 word"
  have res: "res = embed_length (raw_digest mix (concat (hasher imo'))) (unat ?x)"
    by (rule hashCore_SomeD(1) [OF run])
  show "length res = 16"
    by (simp add: res length_embed_u64)
  have small: "uvarint (unat ?x) = uvarint (nat (SectionReader_Size f)) \<and>
               length (uvarint (unat ?x)) \<le> 9"
    if "0 \<le> SectionReader_Size f" "SectionReader_Size f \<le> maxint64"
  proof -
    have eq: "unat ?x = nat (SectionReader_Size f)"
      using that by (rule unat_int64)
    have "nat (SectionReader_Size f) < 2 ^ 63"
      using that by (simp add: maxint64_def nat_less_iff)
    then show ?thesis
      using eq uvarint_length_i64 by simp
  qed
  show "let enc = uvarint (unat ?x); raw = hasher_Sum mix (hasher imo') []
        in length raw = 16 \<and> 1 \<le> length enc \<and> length enc \<le> 10 \<and>
           take (length enc) res = enc \<and>
           drop (length enc) res = drop (length enc) raw \<and>
           (0 \<le> SectionReader_Size f \<and> SectionReader_Size f \<le> maxint64 \<longrightarrow>
              enc = uvarint (nat (SectionReader_Size f)) \<and> length enc \<le> 9)"
    using small uvarint_length_pos [of "unat ?x"]
    by (auto simp: res Let_def hasher_Sum_raw length_raw_digest
        uvarint_length_u64 take_embed_length drop_embed_length)
qed

text \<open>The claim at a three-byte buffer, whose size is encoded in one byte.\<close>

theorem C3_identifier_layout_witness:
  "hashCore example_mix New (NewSectionReader (bytes_ReadAt [1, 2, 3]) 0 3) =
     Some (whole_content_identifier example_mix [1, 2, 3], New\<lparr>hasher := [[1, 2, 3]]\<rparr>,
           \<lparr>sr_r = bytes_ReadAt [1, 2, 3], sr_base = 0, sr_off = 3, sr_limit = 3, sr_n = 3\<rparr>) \<and>
   0 \<le> SectionReader_Size (NewSectionReader (bytes_ReadAt [1, 2, 3]) 0 3) \<and>
   SectionReader_Size (NewSectionReader (bytes_ReadAt [1, 2, 3]) 0 3) \<le> maxint64 \<and>
   length (whole_content_identifier example_mix [1, 2, 3]) = 16 \<and>
   take 1 (whole_content_identifier example_mix [1, 2, 3]) = [3] \<and>
   drop 1 (whole_content_identifier example_mix [1, 2, 3]) =
     drop 1 (hasher_Sum example_mix [[1, 2, 3]] [])"
proof -
  let ?f = "NewSectionReader (bytes_ReadAt [1, 2, 3]) 0 3"
  have alloc: "int (length [1, 2, 3 :: byte]) \<le> maxAlloc"
    by (simp add: maxAlloc_def)
  have whole: "int (length [1, 2, 3 :: byte]) < sampleThreshold New \<or> sampleSize New < 1"
    by (simp add: New_def NewCustom_def SampleThreshhold_def)
  have run: "hashCore example_mix New ?f =
               Some (whole_content_identifier example_mix [1, 2, 3],
                     New\<lparr>hasher := [[1, 2, 3]]\<rparr>,
                     \<lparr>sr_r = bytes_ReadAt [1, 2, 3], sr_base = 0, sr_off = 3, sr_limit = 3,
                      sr_n = 3\<rparr>)"
    using hashCore_bytes_whole [OF alloc whole, of example_mix] by simp
  have size: "SectionReader_Size ?f = 3"
    by (simp add: SectionReader_Size_def NewSectionReader_nonneg maxint64_def)
  have enc: "uvarint 3 = [3]"
    by (subst uvarint.simps) simp
  from C3_identifier_layout [of example_mix New ?f, THEN conjunct2, rule_format, OF run] run
  show ?thesis
    by (simp add: size enc Let_def maxint64_def)
qed

text \<open>
  Claim C4. A one-shot computation over any reader returns unless the allocation of its
  buffer panics. When it returns, the primitive has received one write exactly when
  \<open>S < sampleThreshold\<close> or \<open>sampleSize < 1\<close>, and that write is the buffer of \<open>S\<close>
  bytes after the one read into it; it has received three writes exactly when
  \<open>S \<ge> sampleThreshold\<close> and \<open>sampleSize \<ge> 1\<close>, so also at \<open>S = sampleThreshold\<close>.
  Over a byte buffer \<open>B\<close> the one write is \<open>B\<close> itself and the three writes have
  \<open>sampleSize\<close> bytes each.
\<close>

theorem C4_path_selection:
  "(hashCore mix imo f = None) =
     (make_bytes (if SectionReader_Size f < sampleThreshold imo \<or> sampleSize imo < 1
                  then SectionReader_Size f else sampleSize imo) = None) \<and>
   (hashCore mix imo f = Some (res, imo', f') \<longrightarrow>
      ((length (hasher imo') = 1) =
         (SectionReader_Size f < sampleThreshold imo \<or> sampleSize imo < 1)) \<and>
      ((length (hasher imo') = 3) =
         (sampleThreshold imo \<le> SectionReader_Size f \<and> 1 \<le> sampleSize imo)) \<and>
      (SectionReader_Size f < sampleThreshold imo \<or> sampleSize imo < 1 \<longrightarrow>
         hasher imo' =
           [fst (SectionReader_Read f (replicate (nat (SectionReader_Size f)) 0))]) \<and>
      (int (length B) \<le> maxint64 \<and>
       f = NewSectionReader (bytes_ReadAt B) 0 (int (length B)) \<longrightarrow>
         ((hasher imo' = [B]) =
            (int (length B) < sampleThreshold imo \<or> sampleSize imo < 1)) \<and>
         ((\<exists>b1 b2 b3. hasher imo' = [b1, b2, b3] \<and>
              length b1 = nat (sampleSize imo) \<and> length b2 = nat (sampleSize imo) \<and>
              length b3 = nat (sampleSize imo)) =
            (sampleThreshold imo \<le> int (length B) \<and> 1 \<le> sampleSize imo))))"
proof (intro conjI impI)
  show "(hashCore mix imo f = None) =
     (make_bytes (if SectionReader_Size f < sampleThreshold imo \<or> sampleSize imo < 1
                  then SectionReader_Size f else sampleSize imo) = None)"
    by (rule hashCore_None_iff)
next
  assume run: "hashCore mix imo f = Some (res, imo', f')"
  note w = hashCore_writes [OF run]
  show "(length (hasher imo') = 1) =
          (SectionReader_Size f < sampleThreshold imo \<or> sampleSize imo < 1)"
    using w by (auto split: if_splits)
  show "(length (hasher imo') = 3) =
          (sampleThreshold imo \<le> SectionReader_Size f \<and> 1 \<le> sampleSize imo)"
    using w by (auto split: if_splits)
  show "hasher imo' = [fst (SectionReader_Read f (replicate (nat (SectionReader_Size f)) 0))]"
    if "SectionReader_Size f < sampleThreshold imo \<or> sampleSize imo < 1"
    using w that by (simp split: if_splits)
next
  assume run: "hashCore mix imo f = Some (res, imo', f')"
    and B: "int (length B) \<le> maxint64 \<and>
            f = NewSectionReader (bytes_ReadAt B) 0 (int (length B))"
  from B have len: "int (length B) \<le> maxint64"
    and f: "f = NewSectionReader (bytes_ReadAt B) 0 (int (length B))"
    by simp_all
  have size: "SectionReader_Size f = int (length B)"
    by (simp add: f NewSectionReader_bytes [OF len] SectionReader_Size_def)
  have ok: "make_bytes (if int (length B) < sampleThreshold imo \<or> sampleSize imo < 1
                        then int (length B) else sampleSize imo) \<noteq> None"
    using run hashCore_None_iff [of mix imo f] unfolding size by simp
  have both: "((hasher imo' = [B]) =
            (int (length B) < sampleThreshold imo \<or> sampleSize imo < 1)) \<and>
         ((\<exists>b1 b2 b3. hasher imo' = [b1, b2, b3] \<and>
              length b1 = nat (sampleSize imo) \<and> length b2 = nat (sampleSize imo) \<and>
              length b3 = nat (sampleSize imo)) =
            (sampleThreshold imo \<le> int (length B) \<and> 1 \<le> sampleSize imo))"
  proof (cases "int (length B) < sampleThreshold imo \<or> sampleSize imo < 1")
    case True
    then have alloc: "int (length B) \<le> maxAlloc"
      using ok by (simp add: make_bytes_def split: if_splits)
    from hashCore_bytes_whole [OF alloc True, of mix] run have "hasher imo' = [B]"
      by (auto simp: f)
    then show ?thesis
      using True by auto
  next
    case False
    then have alloc: "sampleSize imo \<le> maxAlloc"
      using ok by (simp add: make_bytes_def split: if_splits)
    from hashCore_bytes_sampling [OF len False alloc, of mix] run show ?thesis
      using False by (auto simp: f Let_def length_go_copy)
  qed
  show "(hasher imo' = [B]) =
            (int (length B) < sampleThreshold imo \<or> sampleSize imo < 1)"
    using both by simp
  show "(\<exists>b1 b2 b3. hasher imo' = [b1, b2, b3] \<and>
              length b1 = nat (sampleSize imo) \<and> length b2 = nat (sampleSize imo) \<and>
              length b3 = nat (sampleSize imo)) =
            (sampleThreshold imo \<le> int (length B) \<and> 1 \<le> sampleSize imo)"
    using both by simp
qed

text \<open>
  The claim at two bytes: with a threshold of two the sampling path is taken, with a
  threshold of three the whole buffer is mixed.
\<close>

theorem C4_path_selection_witness:
  "int (length [5, 6 :: byte]) \<le> maxint64 \<and>
   int (length [5, 6 :: byte]) = sampleThreshold (NewCustom 1 2) \<and>
   (\<exists>res imo' f'.
      hashCore example_mix (NewCustom 1 2) (NewSectionReader (bytes_ReadAt [5, 6]) 0 2) =
        Some (res, imo', f') \<and>
      hasher imo' \<noteq> [[5, 6]] \<and> length (hasher imo') = 3) \<and>
   int (length [5, 6 :: byte]) < sampleThreshold (NewCustom 1 3) \<and>
   (\<exists>res imo' f'.
      hashCore example_mix (NewCustom 1 3) (NewSectionReader (bytes_ReadAt [5, 6]) 0 2) =
        Some (res, imo', f') \<and>
      hasher imo' = [[5, 6]] \<and> length (hasher imo') = 1)"
proof -
  let ?B = "[5, 6 :: byte]"
  let ?f = "NewSectionReader (bytes_ReadAt ?B) 0 2"
  have len: "int (length ?B) \<le> maxint64"
    by (simp add: maxint64_def)
  have size: "SectionReader_Size ?f = 2"
    by (simp add: SectionReader_Size_def NewSectionReader_nonneg maxint64_def)
  have "hashCore example_mix (NewCustom 1 2) ?f \<noteq> None"
    by (simp add: hashCore_None_iff size make_bytes_def maxAlloc_def NewCustom_def)
  then obtain r1 e1 g1 where run1: "hashCore example_mix (NewCustom 1 2) ?f = Some (r1, e1, g1)"
    by auto
  have "hashCore example_mix (NewCustom 1 3) ?f \<noteq> None"
    by (simp add: hashCore_None_iff size make_bytes_def maxAlloc_def NewCustom_def)
  then obtain r2 e2 g2 where run2: "hashCore example_mix (NewCustom 1 3) ?f = Some (r2, e2, g2)"
    by auto
  have B: "int (length ?B) \<le> maxint64 \<and>
           ?f = NewSectionReader (bytes_ReadAt ?B) 0 (int (length ?B))"
    using len by simp
  note c1 = C4_path_selection [of example_mix "NewCustom 1 2" ?f r1 e1 g1 ?B,
      THEN conjunct2, rule_format, OF run1]
  have s1: "length (hasher e1) = 3"
    using c1 [THEN conjunct2, THEN conjunct1] by (simp add: size NewCustom_def)
  have "(hasher e1 = [?B]) =
          (int (length ?B) < sampleThreshold (NewCustom 1 2) \<or> sampleSize (NewCustom 1 2) < 1)"
    using c1 [THEN conjunct2, THEN conjunct2, THEN conjunct2, rule_format, OF B]
    by (rule conjunct1)
  then have n1: "hasher e1 \<noteq> [[5, 6]]"
    by (simp add: NewCustom_def)
  note c2 = C4_path_selection [of example_mix "NewCustom 1 3" ?f r2 e2 g2 ?B,
      THEN conjunct2, rule_format, OF run2]
  have s2: "length (hasher e2) = 1"
    using c2 [THEN conjunct1] by (simp add: size NewCustom_def)
  have "(hasher e2 = [?B]) =
          (int (length ?B) < sampleThreshold (NewCustom 1 3) \<or> sampleSize (NewCustom 1 3) < 1)"
    using c2 [THEN conjunct2, THEN conjunct2, THEN conjunct2, rule_format, OF B]
    by (rule conjunct1)
  then have n2: "hasher e2 = [[5, 6]]"
    by (simp add: NewCustom_def)
  show ?thesis
    using len run1 run2 s1 n1 s2 n2 by (simp add: NewCustom_def)
qed

text \<open>
  Claim C5. On an engine with the default sample size 16384, two buffers of the same
  length, at least the engine's threshold, that agree on the first 16384 bytes, on the
  16384 bytes from half the length, and on the last 16384 bytes, have the same one-shot
  identifier, whatever lies between the windows. \<^verbatim>\<open>Sum128\<close> is the case of the
  default engine.
\<close>

theorem C5_blind_spot:
  assumes "sampleSize imo = SampleSize"
    and "sampleThreshold imo \<le> int (length B)"
    and "length B' = length B"
    and "int (length B) \<le> maxint64"
    and "take 16384 B' = take 16384 B"
    and "take 16384 (drop (length B div 2) B') = take 16384 (drop (length B div 2) B)"
    and "drop (length B - 16384) B' = drop (length B - 16384) B"
  shows "map_option fst
           (hashCore mix imo (NewSectionReader (bytes_ReadAt B') 0 (int (length B')))) =
         map_option fst
           (hashCore mix imo (NewSectionReader (bytes_ReadAt B) 0 (int (length B)))) \<and>
         (\<exists>r. map_option fst
                (hashCore mix imo (NewSectionReader (bytes_ReadAt B) 0 (int (length B)))) =
                Some r \<and>
              length r = 16)"
proof -
  let ?f = "\<lambda>B. NewSectionReader (bytes_ReadAt B) 0 (int (length B))"
  have n: "nat (sampleSize imo) = 16384" and s: "sampleSize imo = 16384"
    using assms(1) by (simp_all add: SampleSize_def)
  have size: "SectionReader_Size (?f B) = int (length B)"
    by (simp add: NewSectionReader_bytes [OF assms(4)] SectionReader_Size_def)
  have alloc: "sampleSize imo \<le> maxAlloc"
    by (simp add: s maxAlloc_def)
  have "hashCore mix imo (?f B) \<noteq> None"
    unfolding hashCore_None_iff size
    using assms(2) by (simp add: s make_bytes_def maxAlloc_def)
  then obtain r e f' where run: "hashCore mix imo (?f B) = Some (r, e, f')"
    by auto
  have sixteen: "length r = 16"
    using hashCore_SomeD(1) [OF run] by (simp add: length_embed_u64)
  have "map_option fst (hashCore mix imo (?f B')) = map_option fst (hashCore mix imo (?f B))"
  proof (cases "length B < 2 * 16384")
    case True
    from windows_cover [OF assms(3) True assms(5) assms(7)] show ?thesis
      by simp
  next
    case False
    have sampling: "\<not> (int (length B) < sampleThreshold imo \<or> sampleSize imo < 1)"
      using assms(2) by (simp add: s)
    have inside: "int (length B) div 2 + sampleSize imo \<le> int (length B)"
      using False by (simp add: s)
    have last: "take 16384 (drop (length B - 16384) X) = drop (length B - 16384) X"
      if "length X = length B" for X :: "byte list"
      using that by simp
    have sampling': "\<not> (int (length B') < sampleThreshold imo \<or> sampleSize imo < 1)"
      and inside': "int (length B') div 2 + sampleSize imo \<le> int (length B')"
      and len': "int (length B') \<le> maxint64"
      using sampling inside assms(3,4) by simp_all
    have "map_option fst (hashCore mix imo (?f B')) =
            Some (embed_length
                    (raw_digest mix
                       (take 16384 B' @ take 16384 (drop (length B div 2) B') @
                        drop (length B - 16384) B'))
                    (length B))"
      unfolding hashCore_bytes_windows [OF len' sampling' inside' alloc]
      using last [of B'] assms(3) by (simp add: n window_def)
    moreover have "map_option fst (hashCore mix imo (?f B)) =
            Some (embed_length
                    (raw_digest mix
                       (take 16384 B @ take 16384 (drop (length B div 2) B) @
                        drop (length B - 16384) B))
                    (length B))"
      unfolding hashCore_bytes_windows [OF assms(4) sampling inside alloc]
      using last [of B] by (simp add: n window_def)
    ultimately show ?thesis
      by (simp only: assms(5-7))
  qed
  then show ?thesis
    using run sixteen by simp
qed

text \<open>
  The claim at 131072 zero bytes and the same buffer with byte 40000 changed, between the
  first and the middle window.
\<close>

theorem C5_blind_spot_witness:
  "(replicate 131072 0) [40000 := 1] \<noteq> replicate 131072 (0 :: byte) \<and>
   Sum128 example_mix ((replicate 131072 0) [40000 := 1]) =
     Sum128 example_mix (replicate 131072 0)"
proof -
  let ?B = "replicate 131072 (0 :: byte)"
  let ?B' = "?B [40000 := 1]"
  have h0: "sampleSize New = SampleSize"
    by (simp add: New_def NewCustom_def)
  have h1: "sampleThreshold New \<le> int (length ?B)"
    by (simp add: New_def NewCustom_def SampleThreshhold_def)
  have h2: "length ?B' = length ?B"
    by simp
  have h3: "int (length ?B) \<le> maxint64"
    by (simp add: maxint64_def)
  have h4: "take 16384 ?B' = take 16384 ?B"
    by simp
  have h5: "take 16384 (drop (length ?B div 2) ?B') = take 16384 (drop (length ?B div 2) ?B)"
    by simp
  have h6: "drop (length ?B - 16384) ?B' = drop (length ?B - 16384) ?B"
    by simp
  have "?B' ! 40000 \<noteq> ?B ! 40000"
    by simp
  then have differ: "?B' \<noteq> ?B"
    by metis
  have "Sum128 example_mix ?B' = Sum128 example_mix ?B"
    using C5_blind_spot [OF h0 h1 h2 h3 h4 h5 h6, of example_mix, THEN conjunct1]
    by (simp only: Sum128_def Let_def)
  with differ show ?thesis
    by (rule conjI)
qed

text \<open>
  Claim C6. When a one-shot computation on an engine returns an identifier, a second one
  on the engine the first left, over the same source, returns the same 16 bytes and leaves
  the same engine; the sample size and the threshold are those of the start. A computation
  returns unless the allocation of its buffer panics, and \<^verbatim>\<open>Sum128\<close> returns a 16-byte
  identifier for every buffer. The source is any reader, a byte buffer among them.
\<close>

theorem C6_deterministic:
  "(hashCore mix imo f = Some (r, imo1, f1) \<longrightarrow>
      hashCore mix imo1 f = Some (r, imo1, f1) \<and> length r = 16 \<and>
      sampleSize imo1 = sampleSize imo \<and> sampleThreshold imo1 = sampleThreshold imo) \<and>
   ((hashCore mix imo f = None) =
      (make_bytes (if SectionReader_Size f < sampleThreshold imo \<or> sampleSize imo < 1
                   then SectionReader_Size f else sampleSize imo) = None)) \<and>
   (int (length B) \<le> maxint64 \<longrightarrow> (\<exists>r'. Sum128 mix B = Some r' \<and> length r' = 16))"
proof (intro conjI impI)
  assume run: "hashCore mix imo f = Some (r, imo1, f1)"
  have "hashCore mix imo1 f = hashCore mix (imo\<lparr>hasher := hasher imo1\<rparr>) f"
    using hashCore_engine [OF run] by simp
  then show "hashCore mix imo1 f = Some (r, imo1, f1)"
    by (simp add: hashCore_hasher_irrelevant run)
  show "length r = 16"
    using hashCore_SomeD(1) [OF run] by (simp add: length_embed_u64)
  show "sampleSize imo1 = sampleSize imo" "sampleThreshold imo1 = sampleThreshold imo"
    using hashCore_SomeD(3,4) [OF run] by simp_all
next
  show "(hashCore mix imo f = None) =
      (make_bytes (if SectionReader_Size f < sampleThreshold imo \<or> sampleSize imo < 1
                   then SectionReader_Size f else sampleSize imo) = None)"
    by (rule hashCore_None_iff)
next
  assume "int (length B) \<le> maxint64"
  then show "\<exists>r'. Sum128 mix B = Some r' \<and> length r' = 16"
    by (rule Sum128_returns)
qed

text \<open>The claim at a three-byte buffer, sampled, and at \<^verbatim>\<open>Sum128\<close> on it.\<close>

theorem C6_deterministic_witness:
  "int (length [1, 2, 3 :: byte]) \<le> maxint64 \<and>
   (\<exists>r imo1 f1.
      hashCore example_mix (NewCustom 1 2) (NewSectionReader (bytes_ReadAt [1, 2, 3]) 0 3) =
        Some (r, imo1, f1) \<and>
      hashCore example_mix imo1 (NewSectionReader (bytes_ReadAt [1, 2, 3]) 0 3) =
        Some (r, imo1, f1) \<and>
      length r = 16) \<and>
   (\<exists>r'. Sum128 example_mix [1, 2, 3] = Some r' \<and> length r' = 16)"
proof -
  let ?f = "NewSectionReader (bytes_ReadAt [1, 2, 3 :: byte]) 0 3"
  have len: "int (length [1, 2, 3 :: byte]) \<le> maxint64"
    by (simp add: maxint64_def)
  have size: "SectionReader_Size ?f = 3"
    by (simp add: SectionReader_Size_def NewSectionReader_nonneg maxint64_def)
  have "hashCore example_mix (NewCustom 1 2) ?f \<noteq> None"
    by (simp add: hashCore_None_iff size make_bytes_def maxAlloc_def NewCustom_def)
  then obtain r e g where run: "hashCore example_mix (NewCustom 1 2) ?f = Some (r, e, g)"
    by auto
  note c = C6_deterministic [of example_mix "NewCustom 1 2" ?f r e g "[1, 2, 3]"]
  from c [THEN conjunct1, rule_format, OF run] run
    c [THEN conjunct2, THEN conjunct2, rule_format, OF len] len
  show ?thesis
    by blast
qed

text \<open>
  Claim C7. With \<open>sampleSize < 1\<close> the one-shot identifier of a buffer is the identifier
  of unconditional whole-content mixing, whatever the threshold and the length: the
  primitive receives the whole buffer as one write, the result is the specification's
  whole-content identifier, and it is what \<^verbatim>\<open>Write\<close> then \<^verbatim>\<open>Sum\<close> give on the
  engine after \<^verbatim>\<open>Reset\<close>. The buffer is one that exists: its length is within the
  allocation limit, so the copy of it that the call allocates is too.
\<close>

theorem C7_sampling_disabled:
  assumes "sampleSize imo < 1"
    and "int (length B) \<le> maxint64"
    and "int (length B) \<le> maxAlloc"
  shows "\<exists>imo' f'.
           hashCore mix imo (NewSectionReader (bytes_ReadAt B) 0 (int (length B))) =
             Some (whole_content_identifier mix B, imo', f') \<and>
           hasher imo' = [B] \<and>
           (\<exists>e. Sum mix (snd (Write (Reset imo) B)) [] =
                  Some (whole_content_identifier mix B, e))"
  using assms
  by (simp add: hashCore_bytes_whole Sum_eq Write_Reset whole_content_identifier_def
      unat_size_u64)

text \<open>The claim at a three-byte buffer with sample size 0 and a threshold below its length.\<close>

theorem C7_sampling_disabled_witness:
  "sampleSize (NewCustom 0 1) < 1 \<and> int (length [1, 2, 3 :: byte]) \<le> maxint64 \<and>
   int (length [1, 2, 3 :: byte]) \<le> maxAlloc \<and>
   sampleThreshold (NewCustom 0 1) \<le> int (length [1, 2, 3 :: byte]) \<and>
   (\<exists>imo' f'.
      hashCore example_mix (NewCustom 0 1) (NewSectionReader (bytes_ReadAt [1, 2, 3]) 0 3) =
        Some (whole_content_identifier example_mix [1, 2, 3], imo', f') \<and>
      hasher imo' = [[1, 2, 3]])"
proof -
  have h1: "sampleSize (NewCustom 0 1) < 1"
    by (simp add: NewCustom_def)
  have h2: "int (length [1, 2, 3 :: byte]) \<le> maxint64"
    by (simp add: maxint64_def)
  have h3: "int (length [1, 2, 3 :: byte]) \<le> maxAlloc"
    by (simp add: maxAlloc_def)
  from C7_sampling_disabled [OF h1 h2 h3, of example_mix] h1 h2 h3 show ?thesis
    by (auto simp: NewCustom_def)
qed

text \<open>
  Claim C8. \<^verbatim>\<open>Sum\<close> leaves the engine as it was and returns the given prefix followed
  by a 16-byte identifier that depends on the engine only: the raw digest with the encoding
  of \<open>bytesAdded\<close> written over its leading bytes. Any number of successive calls return
  that same suffix.
\<close>

theorem C8_Sum_pure:
  "\<exists>ident. length ident = 16 \<and>
     (\<forall>data. Sum mix imo data = Some (data @ ident, imo)) \<and>
     (\<forall>ps. Sum_each mix imo ps = Some (map (\<lambda>p. p @ ident) ps, imo)) \<and>
     ident = embed_length (hasher_Sum mix (hasher imo) [])
               (unat (word_of_int (bytesAdded imo) :: 64 word))"
  by (simp add: Sum_eq Sum_each_eq length_embed_u64 hasher_Sum_raw)

text \<open>
  Claim C9. For a buffer \<open>B\<close> shorter than \<open>SampleThreshhold\<close>, \<^verbatim>\<open>Sum128\<close> mixes
  the whole of \<open>B\<close> as one write and returns the whole-content identifier: the digest of
  \<open>B\<close> with the encoding of its length over the leading bytes. One \<^verbatim>\<open>Write\<close> of \<open>B\<close>
  to a new default engine, or to any engine just after \<^verbatim>\<open>Reset\<close>, leaves the primitive
  with that same one write and the counter at the length of \<open>B\<close>, and \<^verbatim>\<open>Sum(nil)\<close>
  then returns exactly those 16 bytes.
\<close>

theorem C9_incremental_agrees:
  assumes "int (length B) < SampleThreshhold"
  shows "Sum128 mix B = Some (whole_content_identifier mix B) \<and>
         length (whole_content_identifier mix B) = 16 \<and>
         (\<exists>imo' f'. hashCore mix New (NewSectionReader (bytes_ReadAt B) 0 (int (length B))) =
                       Some (whole_content_identifier mix B, imo', f') \<and>
                     hasher imo' = [B]) \<and>
         fst (Write New B) = (int (length B), None) \<and>
         hasher (snd (Write New B)) = [B] \<and>
         bytesAdded (snd (Write New B)) = int (length B) \<and>
         Sum mix (snd (Write New B)) [] =
           Some (whole_content_identifier mix B, snd (Write New B)) \<and>
         hasher (snd (Write (Reset imo) B)) = [B] \<and>
         bytesAdded (snd (Write (Reset imo) B)) = int (length B) \<and>
         Sum mix (snd (Write (Reset imo) B)) [] =
           Some (whole_content_identifier mix B, snd (Write (Reset imo) B))"
proof -
  have alloc: "int (length B) \<le> maxAlloc"
    using assms by (simp add: SampleThreshhold_def maxAlloc_def)
  have len: "int (length B) \<le> maxint64"
    using alloc by (rule maxAlloc_le_maxint64)
  have whole: "int (length B) < sampleThreshold New \<or> sampleSize New < 1"
    using assms by (simp add: New_def NewCustom_def)
  note run = hashCore_bytes_whole [OF alloc whole, of mix]
  have one: "Sum128 mix B = Some (whole_content_identifier mix B)"
    unfolding Sum128_def Let_def run by simp
  have "length (embed_length (raw_digest mix B) (unat (word_of_nat (length B) :: 64 word))) = 16"
    by (rule length_embed_u64)
  then have sixteen: "length (whole_content_identifier mix B) = 16"
    by (simp only: whole_content_identifier_def unat_size_u64 [OF len])
  have wn: "Sum mix (snd (Write New B)) [] =
              Some (whole_content_identifier mix B, snd (Write New B))"
    by (simp add: Sum_eq Write_New [OF len] whole_content_identifier_def
        unat_size_u64 [OF len])
  have wr: "Sum mix (snd (Write (Reset imo) B)) [] =
              Some (whole_content_identifier mix B, snd (Write (Reset imo) B))"
    by (simp add: Sum_eq Write_Reset [OF len] whole_content_identifier_def
        unat_size_u64 [OF len])
  have ret: "fst (Write New B) = (int (length B), None)"
    by (simp add: Write_def)
  show ?thesis
    using one sixteen wn wr ret
    by (simp add: run Write_New [OF len] Write_Reset [OF len])
qed

text \<open>The claim at a three-byte buffer.\<close>

theorem C9_incremental_agrees_witness:
  "int (length [1, 2, 3 :: byte]) < SampleThreshhold \<and>
   Sum128 example_mix [1, 2, 3] = Some (whole_content_identifier example_mix [1, 2, 3]) \<and>
   hasher (snd (Write New [1, 2, 3])) = [[1, 2, 3]] \<and>
   bytesAdded (snd (Write New [1, 2, 3])) = 3 \<and>
   Sum example_mix (snd (Write New [1, 2, 3])) [] =
     Some (whole_content_identifier example_mix [1, 2, 3], snd (Write New [1, 2, 3])) \<and>
   Sum example_mix (snd (Write (Reset (NewCustom 1 0)) [1, 2, 3])) [] =
     Some (whole_content_identifier example_mix [1, 2, 3],
           snd (Write (Reset (NewCustom 1 0)) [1, 2, 3]))"
proof -
  have h: "int (length [1, 2, 3 :: byte]) < SampleThreshhold"
    by (simp add: SampleThreshhold_def)
  from C9_incremental_agrees [OF h, of example_mix "NewCustom 1 0"] h show ?thesis
    by simp
qed

text \<open>
  Claim C10. A one-shot computation resets the mixing primitive and leaves \<open>bytesAdded\<close>
  as it was: what \<^verbatim>\<open>hashCore\<close> returns does not depend on the writes the primitive
  held before, the counter after the call is the counter before it, and a following
  \<^verbatim>\<open>Sum\<close> embeds the encoding of that old count. The same holds for the counter across
  the method \<^verbatim>\<open>SumFile\<close>.
\<close>

theorem C10_bytesAdded_frame:
  "(hashCore mix imo f = Some (res, imo', f') \<longrightarrow>
      bytesAdded imo' = bytesAdded imo \<and>
      hashCore mix (imo\<lparr>hasher := h\<rparr>) f = Some (res, imo', f') \<and>
      (\<exists>ident. Sum mix imo' [] = Some (ident, imo') \<and>
         take (length (uvarint (unat (word_of_int (bytesAdded imo) :: 64 word)))) ident =
           uvarint (unat (word_of_int (bytesAdded imo) :: 64 word)))) \<and>
   (ImoHash_SumFile mix fs imo name = Some (out, imo'') \<longrightarrow>
      bytesAdded imo'' = bytesAdded imo)"
proof (intro conjI impI)
  assume run: "hashCore mix imo f = Some (res, imo', f')"
  show same: "bytesAdded imo' = bytesAdded imo"
    by (rule hashCore_SomeD(2) [OF run])
  show "hashCore mix (imo\<lparr>hasher := h\<rparr>) f = Some (res, imo', f')"
    by (simp add: hashCore_hasher_irrelevant run)
  show "\<exists>ident. Sum mix imo' [] = Some (ident, imo') \<and>
          take (length (uvarint (unat (word_of_int (bytesAdded imo) :: 64 word)))) ident =
            uvarint (unat (word_of_int (bytesAdded imo) :: 64 word))"
    by (simp add: Sum_eq same take_embed_length)
next
  assume "ImoHash_SumFile mix fs imo name = Some (out, imo'')"
  then show "bytesAdded imo'' = bytesAdded imo"
    by (rule SumFile_bytesAdded)
qed

text \<open>
  The claim on an engine that has been written two bytes, hashing a three-byte buffer and
  then a file.
\<close>

theorem C10_bytesAdded_frame_witness:
  "hashCore example_mix (snd (Write New [7, 7])) (NewSectionReader (bytes_ReadAt [1, 2, 3]) 0 3) =
     Some (whole_content_identifier example_mix [1, 2, 3],
           (snd (Write New [7, 7]))\<lparr>hasher := [[1, 2, 3]]\<rparr>,
           \<lparr>sr_r = bytes_ReadAt [1, 2, 3], sr_base = 0, sr_off = 3, sr_limit = 3, sr_n = 3\<rparr>) \<and>
   bytesAdded (snd (Write New [7, 7])) = 2 \<and>
   bytesAdded ((snd (Write New [7, 7]))\<lparr>hasher := [[1, 2, 3]]\<rparr>) = 2 \<and>
   ImoHash_SumFile example_mix example_fs (snd (Write New [7, 7])) ''nostat'' =
     Some ((emptyArray, Some (OSError ''stat failed'')), snd (Write New [7, 7]))"
proof -
  let ?imo = "snd (Write New [7, 7])"
  let ?f = "NewSectionReader (bytes_ReadAt [1, 2, 3]) 0 3"
  have len: "int (length [1, 2, 3 :: byte]) \<le> maxAlloc"
    by (simp add: maxAlloc_def)
  have whole: "int (length [1, 2, 3 :: byte]) < sampleThreshold ?imo \<or> sampleSize ?imo < 1"
    by (simp add: Write_def New_def NewCustom_def SampleThreshhold_def)
  have run: "hashCore example_mix ?imo ?f =
               Some (whole_content_identifier example_mix [1, 2, 3],
                     ?imo\<lparr>hasher := [[1, 2, 3]]\<rparr>,
                     \<lparr>sr_r = bytes_ReadAt [1, 2, 3], sr_base = 0, sr_off = 3, sr_limit = 3,
                      sr_n = 3\<rparr>)"
    using hashCore_bytes_whole [OF len whole, of example_mix] by simp
  have stat: "ImoHash_SumFile example_mix example_fs ?imo ''nostat'' =
                Some ((emptyArray, Some (OSError ''stat failed'')), ?imo)"
    by (simp add: ImoHash_SumFile_def example_fs_def)
  have two: "bytesAdded ?imo = 2"
    by (simp add: Write_def New_def NewCustom_def int64_id maxint64_def)
  from C10_bytesAdded_frame [of example_mix ?imo ?f _ _ _ "[]" example_fs "''nostat''"]
    run stat two
  show ?thesis
    by simp
qed

end
